theory Spec2Isabelle
  imports Main
begin

section \<open>Python strings\<close>

text \<open>
  A Python \<open>str\<close> is modelled as a \<open>string\<close> (a list of characters). The program
  only tests prefixes and suffixes, slices off a fixed number of leading characters,
  concatenates and searches for substrings, so nothing depends on the alphabet.
\<close>

definition dquote :: char where
  "dquote = CHR 0x22"

definition newline :: char where
  "newline = CHR 0x0A"

text \<open>\<open>s.startswith(p)\<close> and \<open>s.endswith(p)\<close>.\<close>

definition startswith :: "string \<Rightarrow> string \<Rightarrow> bool" where
  "startswith s p = (take (length p) s = p)"

definition endswith :: "string \<Rightarrow> string \<Rightarrow> bool" where
  "endswith s p = (length p \<le> length s \<and> drop (length s - length p) s = p)"

text \<open>\<open>s.endswith(t)\<close> for a tuple \<open>t\<close> of suffixes: some member is a suffix.\<close>

definition endswith_any :: "string \<Rightarrow> string list \<Rightarrow> bool" where
  "endswith_any s ps = list_ex (endswith s) ps"

text \<open>
  \<open>needle in hay\<close> on two strings: the needle occurs at some position of the haystack.
  The empty needle occurs in every haystack, the empty one included.
\<close>

fun str_in :: "string \<Rightarrow> string \<Rightarrow> bool" where
  "str_in needle [] = (needle = [])"
| "str_in needle (c # cs) = (startswith (c # cs) needle \<or> str_in needle cs)"

section \<open>Path functions of \<open>os.path\<close> (POSIX)\<close>

text \<open>\<open>os.path.basename(p)\<close> is \<open>p[p.rfind('/') + 1:]\<close>: what follows the last slash.\<close>

definition basename :: "string \<Rightarrow> string" where
  "basename p = rev (takeWhile (\<lambda>c. c \<noteq> CHR ''/'') (rev p))"

section \<open>The usage checkers\<close>

text \<open>
  \<open>check_cmake_usage(file_path, cmake_content)\<close>. The source also computes
  \<open>fname = os.path.basename(file_path)\<close> and never reads it again.
\<close>

definition check_cmake_usage :: "string \<Rightarrow> string \<Rightarrow> bool" where
  "check_cmake_usage file_path cmake_content =
     (let fname = basename file_path in
      if startswith file_path ''src/'' then
        (let rel_in_cmake = drop 4 file_path in str_in rel_in_cmake cmake_content)
      else if startswith file_path ''tests/'' then
        (let rel_in_cmake = drop 6 file_path in str_in rel_in_cmake cmake_content)
      else False)"

text \<open>
  \<open>check_header_usage(header_path, all_source_content)\<close>. The two f-strings wrap the
  stripped path in double quotes and in angle brackets.
\<close>

definition check_header_usage :: "string \<Rightarrow> string \<Rightarrow> bool" where
  "check_header_usage header_path all_source_content =
     (if startswith header_path ''include/'' then
        (let include_ref = drop 8 header_path in
         str_in ([dquote] @ include_ref @ [dquote]) all_source_content
         \<or> str_in (''<'' @ include_ref @ ''>'') all_source_content)
      else True)"

section \<open>The file system\<close>

text \<open>
  The project tree below the working directory. A directory lists its entries in the
  order \<open>os.scandir\<close> yields them. A regular file holds what Python's text layer sees
  when it decodes the file: a sequence of pieces, each a decoded character (after the
  translation of line endings) or a byte sequence that is invalid in the locale's
  encoding. Two more kinds of entry stand for what \<open>open\<close> cannot read: a symbolic
  link whose target is missing, and a regular file that the process has no permission
  to read. In a real tree an entry name is never empty, \<open>.\<close> or \<open>..\<close>, contains
  no slash, and occurs once in its directory: that is \<open>wf_node\<close>.
\<close>

datatype piece = Chr char | Undecodable

datatype node =
  File "piece list" | Dir "(string \<times> node) list" | Broken_link | No_access

datatype os_error =
  FileNotFoundError | NotADirectoryError | IsADirectoryError | PermissionError
  | UnicodeDecodeError

definition valid_name :: "string \<Rightarrow> bool" where
  "valid_name n = (n \<noteq> [] \<and> n \<noteq> ''.'' \<and> n \<noteq> ''..'' \<and> CHR ''/'' \<notin> set n)"

fun wf_node :: "node \<Rightarrow> bool" and wf_entries :: "(string \<times> node) list \<Rightarrow> bool" where
  "wf_node (File ps) = True"
| "wf_node Broken_link = True"
| "wf_node No_access = True"
| "wf_node (Dir ents) = wf_entries ents"
| "wf_entries [] = True"
| "wf_entries ((n, x) # rest) =
     (valid_name n \<and> n \<notin> set (map fst rest) \<and> wf_node x \<and> wf_entries rest)"

text \<open>\<open>s.split('/')\<close>: the pieces between the slashes, empty ones included.\<close>

fun split_slash :: "string \<Rightarrow> string list" where
  "split_slash [] = [[]]"
| "split_slash (c # cs) =
     (if c = CHR ''/'' then [] # split_slash cs
      else (case split_slash cs of
              [] \<Rightarrow> [[c]]
            | w # ws \<Rightarrow> (c # w) # ws))"

text \<open>
  Path resolution from the working directory. Empty components and \<open>.\<close> are skipped;
  a missing entry is \<open>ENOENT\<close>, and so is a broken link; a regular file in the middle
  of a path, or before a final slash, is \<open>ENOTDIR\<close>. The paths the program
  resolves are the two build-file literals, the five root literals and joins of a walked
  directory with one of its entries, so no component is \<open>..\<close>, which is not
  modelled.
\<close>

definition components :: "string \<Rightarrow> string list" where
  "components path = filter (\<lambda>c. c \<noteq> [] \<and> c \<noteq> ''.'') (split_slash path)"

fun lookup :: "node \<Rightarrow> string list \<Rightarrow> os_error + node"
  and lookup_in :: "(string \<times> node) list \<Rightarrow> string \<Rightarrow> string list \<Rightarrow> os_error + node" where
  "lookup x [] = Inr x"
| "lookup (File ps) (c # cs) = Inl NotADirectoryError"
| "lookup No_access (c # cs) = Inl NotADirectoryError"
| "lookup Broken_link (c # cs) = Inl FileNotFoundError"
| "lookup (Dir ents) (c # cs) = lookup_in ents c cs"
| "lookup_in [] c cs = Inl FileNotFoundError"
| "lookup_in ((n, x) # rest) c cs = (if n = c then lookup x cs else lookup_in rest c cs)"

text \<open>What a path that ends in a slash resolves to: its target has to be a directory.\<close>

fun as_directory :: "node \<Rightarrow> os_error + node" where
  "as_directory (Dir ents) = Inr (Dir ents)"
| "as_directory Broken_link = Inl FileNotFoundError"
| "as_directory (File ps) = Inl NotADirectoryError"
| "as_directory No_access = Inl NotADirectoryError"

definition resolve :: "node \<Rightarrow> string \<Rightarrow> os_error + node" where
  "resolve fs path =
     (if path = [] then Inl FileNotFoundError
      else (case lookup fs (components path) of
              Inl e \<Rightarrow> Inl e
            | Inr x \<Rightarrow> if endswith path ''/'' then as_directory x else Inr x))"

text \<open>
  \<open>open(path, 'r')\<close>: the pieces of a regular file, or the error raised. A broken
  link raises \<open>FileNotFoundError\<close>, a file without read permission
  \<open>PermissionError\<close>.
\<close>

definition open_file :: "node \<Rightarrow> string \<Rightarrow> os_error + piece list" where
  "open_file fs path =
     (case resolve fs path of
        Inl e \<Rightarrow> Inl e
      | Inr (Dir ents) \<Rightarrow> Inl IsADirectoryError
      | Inr (File ps) \<Rightarrow> Inr ps
      | Inr Broken_link \<Rightarrow> Inl FileNotFoundError
      | Inr No_access \<Rightarrow> Inl PermissionError)"

text \<open>
  \<open>f.read()\<close> under the two error handlers the program uses: the default
  \<open>errors='strict'\<close> raises at the first invalid byte sequence, \<open>errors='ignore'\<close>
  drops the invalid sequences and keeps the rest.
\<close>

fun decode_ignore :: "piece list \<Rightarrow> string" where
  "decode_ignore [] = []"
| "decode_ignore (Chr c # ps) = c # decode_ignore ps"
| "decode_ignore (Undecodable # ps) = decode_ignore ps"

definition decode_strict :: "piece list \<Rightarrow> os_error + string" where
  "decode_strict ps =
     (if Undecodable \<in> set ps then Inl UnicodeDecodeError else Inr (decode_ignore ps))"

text \<open>
  \<open>read_file(path)\<close>: \<open>open(path, 'r')\<close> with the default handler, inside a
  \<open>try\<close> that catches \<open>FileNotFoundError\<close> only.
\<close>

definition read_file :: "node \<Rightarrow> string \<Rightarrow> os_error + string" where
  "read_file fs path =
     (case open_file fs path of
        Inl e \<Rightarrow> (if e = FileNotFoundError then Inr [] else Inl e)
      | Inr ps \<Rightarrow> decode_strict ps)"

text \<open>\<open>open(path, 'r', errors='ignore')\<close> followed by \<open>f.read()\<close>, with no guard.\<close>

definition read_ignore :: "node \<Rightarrow> string \<Rightarrow> os_error + string" where
  "read_ignore fs path =
     (case open_file fs path of
        Inl e \<Rightarrow> Inl e
      | Inr ps \<Rightarrow> Inr (decode_ignore ps))"

text \<open>
  \<open>os.path.join(a, b)\<close>: an absolute \<open>b\<close> replaces \<open>a\<close>; otherwise one slash
  separates them unless \<open>a\<close> is empty or ends with one.
\<close>

definition os_path_join :: "string \<Rightarrow> string \<Rightarrow> string" where
  "os_path_join a b =
     (if startswith b ''/'' then b
      else if a = [] \<or> endswith a ''/'' then a @ b
      else a @ ''/'' @ b)"

text \<open>
  \<open>os.path.relpath(path, start=".")\<close> for a relative path that stays below the
  working directory: the path is normalised as \<open>os.path.normpath\<close> does it. Empty
  components and \<open>.\<close> are dropped, \<open>..\<close> removes the component before it, the rest
  is joined by slashes, and the empty result is \<open>.\<close>.
\<close>

fun norm_comps :: "string list \<Rightarrow> string list \<Rightarrow> string list" where
  "norm_comps [] new_comps = new_comps"
| "norm_comps (c # comps) new_comps =
     (if c = [] \<or> c = ''.'' then norm_comps comps new_comps
      else if c \<noteq> ''..'' \<or> new_comps = [] \<or> last new_comps = ''..''
        then norm_comps comps (new_comps @ [c])
      else norm_comps comps (butlast new_comps))"

fun join_slash :: "string list \<Rightarrow> string" where
  "join_slash [] = []"
| "join_slash [c] = c"
| "join_slash (c # cs) = c @ ''/'' @ join_slash cs"

definition relpath :: "string \<Rightarrow> string" where
  "relpath path =
     (let p = join_slash (norm_comps (split_slash path) []) in
      if p = [] then ''.'' else p)"

section \<open>Directory traversal\<close>

text \<open>
  \<open>os.walk(top)\<close>, top-down: one triple \<open>(root, dirs, files)\<close> for each directory,
  the directory itself before its subdirectories, these in listing order. Every entry
  that is no directory is listed under \<open>files\<close>, a broken link and an unreadable file
  too. A top that is missing or is no directory yields nothing, since \<open>os.walk\<close>
  swallows the error of \<open>scandir\<close>.
\<close>

type_synonym walk_entry = "string \<times> string list \<times> string list"

fun dirnames :: "(string \<times> node) list \<Rightarrow> string list" where
  "dirnames [] = []"
| "dirnames ((n, Dir ents) # rest) = n # dirnames rest"
| "dirnames ((n, x) # rest) = dirnames rest"

fun filenames :: "(string \<times> node) list \<Rightarrow> string list" where
  "filenames [] = []"
| "filenames ((n, Dir ents) # rest) = filenames rest"
| "filenames ((n, x) # rest) = n # filenames rest"

fun walk_node :: "string \<Rightarrow> node \<Rightarrow> walk_entry list"
  and walk_children :: "string \<Rightarrow> (string \<times> node) list \<Rightarrow> walk_entry list" where
  "walk_node topdir (File ps) = []"
| "walk_node topdir Broken_link = []"
| "walk_node topdir No_access = []"
| "walk_node topdir (Dir ents) = (topdir, dirnames ents, filenames ents) # walk_children topdir ents"
| "walk_children topdir [] = []"
| "walk_children topdir ((n, x) # rest) =
     walk_node (os_path_join topdir n) x @ walk_children topdir rest"

definition os_walk :: "node \<Rightarrow> string \<Rightarrow> walk_entry list" where
  "os_walk fs topdir =
     (case resolve fs topdir of
        Inl e \<Rightarrow> []
      | Inr x \<Rightarrow> walk_node topdir x)"

section \<open>The file enumerator\<close>

text \<open>
  \<open>get_files(directory, extensions)\<close>: the inner loop over the files of one walked
  directory, the outer loop over the walk, and the function itself.
\<close>

fun get_files_in :: "string \<Rightarrow> string list \<Rightarrow> string list \<Rightarrow> string list \<Rightarrow> string list" where
  "get_files_in root extensions [] file_list = file_list"
| "get_files_in root extensions (file # files) file_list =
     (if endswith_any file extensions
      then get_files_in root extensions files
             (file_list @ [relpath (os_path_join root file)])
      else get_files_in root extensions files file_list)"

fun get_files_walk :: "string list \<Rightarrow> walk_entry list \<Rightarrow> string list \<Rightarrow> string list" where
  "get_files_walk extensions [] file_list = file_list"
| "get_files_walk extensions ((root, dirs, files) # rest) file_list =
     get_files_walk extensions rest (get_files_in root extensions files file_list)"

definition get_files :: "node \<Rightarrow> string \<Rightarrow> string list \<Rightarrow> string list" where
  "get_files fs directory extensions =
     get_files_walk extensions (os_walk fs directory) []"

section \<open>The report driver\<close>

text \<open>\<open>print(s)\<close> writes \<open>s\<close> and a newline to standard output.\<close>

definition print :: "string \<Rightarrow> string \<Rightarrow> string" where
  "print out s = out @ s @ [newline]"

text \<open>
  The four reporting loops of \<open>main\<close> have one shape: each item that its test does
  not find used is printed and appended to the result list. The state is the standard
  output so far and the result list so far.
\<close>

fun report_unused ::
  "(string \<Rightarrow> bool) \<Rightarrow> string list \<Rightarrow> string \<times> string list \<Rightarrow> string \<times> string list" where
  "report_unused used [] (out, unused) = (out, unused)"
| "report_unused used (f # files) (out, unused) =
     (if \<not> used f then report_unused used files (print out f, unused @ [f])
      else report_unused used files (out, unused))"

text \<open>
  The inner loop of both content loaders: every file of the walked directory whose name
  ends with one of the suffixes is opened with \<open>errors='ignore'\<close>, and its text and a
  newline are appended to the content. No error of \<open>open\<close> is caught.
\<close>

fun read_matching ::
  "node \<Rightarrow> string \<Rightarrow> string list \<Rightarrow> string list \<Rightarrow> string \<Rightarrow> os_error + string" where
  "read_matching fs root suffixes [] content = Inr content"
| "read_matching fs root suffixes (file # files) content =
     (if endswith_any file suffixes then
        (case read_ignore fs (os_path_join root file) of
           Inl e \<Rightarrow> Inl e
         | Inr text \<Rightarrow> read_matching fs root suffixes files (content @ text @ [newline]))
      else read_matching fs root suffixes files content)"

text \<open>
  The loop over \<open>os.walk(".")\<close> that builds \<open>all_content\<close>: a directory whose path
  has \<open>build\<close> or \<open>node_modules\<close> in it is passed over.
\<close>

fun load_all_content :: "node \<Rightarrow> walk_entry list \<Rightarrow> string \<Rightarrow> os_error + string" where
  "load_all_content fs [] all_content = Inr all_content"
| "load_all_content fs ((root, dirs, files) # rest) all_content =
     (if str_in ''build'' root \<or> str_in ''node_modules'' root
      then load_all_content fs rest all_content
      else (case read_matching fs root [''.cpp'', ''.c'', ''.h'', ''.hpp''] files all_content of
              Inl e \<Rightarrow> Inl e
            | Inr content \<Rightarrow> load_all_content fs rest content))"

text \<open>The loop over \<open>os.walk("ui")\<close> that builds \<open>html_content\<close>.\<close>

fun load_html_content :: "node \<Rightarrow> walk_entry list \<Rightarrow> string \<Rightarrow> os_error + string" where
  "load_html_content fs [] html_content = Inr html_content"
| "load_html_content fs ((root, dirs, files) # rest) html_content =
     (case read_matching fs root [''.html''] files html_content of
        Inl e \<Rightarrow> Inl e
      | Inr content \<Rightarrow> load_html_content fs rest content)"

text \<open>
  What a run leaves behind: the text on standard output and the four result lists.
  A run that raises leaves the output printed so far and the error.
\<close>

record report =
  stdout :: string
  unused_src :: "string list"
  unused_tests :: "string list"
  unused_headers :: "string list"
  unused_assets :: "string list"

definition main :: "node \<Rightarrow> (string \<times> os_error) + report" where
  "main fs =
     (let out1 = print [] ''--- Unused C++ Source Files ---'';
          src_files = get_files fs ''src'' [''.cpp'', ''.c''];
          test_files = get_files fs ''tests'' [''.cpp'', ''.c'']
      in
      case read_file fs ''src/CMakeLists.txt'' of
        Inl e \<Rightarrow> Inl (out1, e)
      | Inr src_cmake \<Rightarrow>
      (case read_file fs ''tests/CMakeLists.txt'' of
        Inl e \<Rightarrow> Inl (out1, e)
      | Inr tests_cmake \<Rightarrow>
      (let (out2, unused_src) =
             report_unused (\<lambda>f. check_cmake_usage f src_cmake) src_files (out1, []);
           out3 = print out2 (newline # ''--- Unused Test Files ---'');
           (out4, unused_tests) =
             report_unused (\<lambda>f. check_cmake_usage f tests_cmake) test_files (out3, []);
           out5 = print out4 (newline # ''--- Unused Headers ---'');
           header_files = get_files fs ''include'' [''.h'', ''.hpp'']
       in
       case load_all_content fs (os_walk fs ''.'') [] of
         Inl e \<Rightarrow> Inl (out5, e)
       | Inr all_content \<Rightarrow>
       (let (out6, unused_headers) =
              report_unused (\<lambda>h. check_header_usage h all_content) header_files (out5, []);
            out7 = print out6 (newline # ''--- Unused Web Assets ---'');
            ui_assets = get_files fs ''ui/static'' [''.js'', ''.css'']
        in
        case load_html_content fs (os_walk fs ''ui'') [] of
          Inl e \<Rightarrow> Inl (out7, e)
        | Inr html_content \<Rightarrow>
        (let (out8, unused_assets) =
               report_unused (\<lambda>asset. str_in (basename asset) html_content) ui_assets (out7, [])
         in Inr \<lparr>stdout = out8, unused_src = unused_src, unused_tests = unused_tests,
                 unused_headers = unused_headers, unused_assets = unused_assets\<rparr>)))))"

section \<open>What the loops compute\<close>

text \<open>
  The text that \<open>open(path, 'r', errors='ignore').read()\<close> returns for a regular file:
  its decodable characters. For a path that cannot be opened the value is empty; the
  loops raise there and never use it.
\<close>

definition lossy_text :: "node \<Rightarrow> string \<Rightarrow> string" where
  "lossy_text fs path = (case open_file fs path of Inl e \<Rightarrow> [] | Inr ps \<Rightarrow> decode_ignore ps)"

text \<open>
  The texts of a list of files, each named by its walked directory and its file name and
  followed by a newline, one after the other.
\<close>

definition concat_texts :: "node \<Rightarrow> (string \<times> string) list \<Rightarrow> string" where
  "concat_texts fs sel =
     concat (map (\<lambda>(root, file). lossy_text fs (os_path_join root file) @ [newline]) sel)"

text \<open>
  The files that make up the haystack of the header check: walked from \<open>.\<close>, in a
  directory whose path has neither \<open>build\<close> nor \<open>node_modules\<close> in it, and named
  with one of the four source and header suffixes.
\<close>

definition haystack_files :: "node \<Rightarrow> (string \<times> string) list" where
  "haystack_files fs =
     [(root, file). (root, dirs, files) \<leftarrow> os_walk fs ''.'',
        \<not> (str_in ''build'' root \<or> str_in ''node_modules'' root),
        file \<leftarrow> files, endswith_any file [''.cpp'', ''.c'', ''.h'', ''.hpp'']]"

text \<open>The markup files: walked from \<open>ui\<close> and named with the suffix \<open>.html\<close>.\<close>

definition markup_files :: "node \<Rightarrow> (string \<times> string) list" where
  "markup_files fs =
     [(root, file). (root, dirs, files) \<leftarrow> os_walk fs ''ui'',
        file \<leftarrow> files, endswith_any file [''.html'']]"

text \<open>A list of paths as \<open>print\<close> writes them, one to a line.\<close>

definition lines :: "string list \<Rightarrow> string" where
  "lines xs = concat (map (\<lambda>f. f @ [newline]) xs)"



text \<open>Every file of a list, named as above, can be opened.\<close>

definition can_open :: "node \<Rightarrow> (string \<times> string) list \<Rightarrow> bool" where
  "can_open fs sel =
     list_all (\<lambda>(root, file). case open_file fs (os_path_join root file) of
                                Inl e \<Rightarrow> False | Inr ps \<Rightarrow> True) sel"


text \<open>A tree of directories and readable regular files only.\<close>

fun regular :: "node \<Rightarrow> bool" and regular_entries :: "(string \<times> node) list \<Rightarrow> bool" where
  "regular (File ps) = True"
| "regular Broken_link = False"
| "regular No_access = False"
| "regular (Dir ents) = regular_entries ents"
| "regular_entries [] = True"
| "regular_entries ((n, x) # rest) = (regular x \<and> regular_entries rest)"

text \<open>A file of plain text: every piece is a decoded character.\<close>

definition plain :: "string \<Rightarrow> piece list" where
  "plain s = map Chr s"

section \<open>Example trees\<close>

text \<open>
  A small project. Its build file for \<open>src\<close> lists two of the three sources, and
  \<open>tests\<close> has no build file. One source holds an undecodable byte. The header
  \<open>core/legacy.h\<close> is included only from a directory named \<open>rebuild\<close>, and the
  script \<open>lib.js\<close> is mentioned only in another script. Under \<open>docs\<close> lies a
  broken link, which no loop of the program opens.
\<close>

definition sample_project :: node where
  "sample_project = Dir
     [(''src'', Dir
         [(''CMakeLists.txt'', File (plain ''add_library(core main.cpp net/tcp.cpp)'')),
          (''main.cpp'', File (plain (''#include '' @ [dquote] @ ''core/api.h'' @ [dquote]))),
          (''old.cpp'', File [Chr CHR ''x'', Undecodable]),
          (''net'', Dir [(''tcp.cpp'', File (plain ''#include <net/tcp.hpp>''))])]),
      (''tests'', Dir [(''t1.cpp'', File [])]),
      (''include'', Dir
         [(''core'', Dir [(''api.h'', File []), (''legacy.h'', File [])]),
          (''net'', Dir [(''tcp.hpp'', File [])])]),
      (''rebuild'', Dir [(''gen.h'', File (plain ''#include <core/legacy.h>''))]),
      (''docs'', Dir [(''latest.md'', Broken_link)]),
      (''ui'', Dir
         [(''index.html'', File (plain ''<script src=static/app.js></script>'')),
          (''static'', Dir
             [(''app.js'', File (plain ''import lib.js'')),
              (''lib.js'', File []),
              (''site.css'', File [])])])]"

text \<open>What a run on the small project prints and collects.\<close>

definition sample_report :: report where
  "sample_report =
     \<lparr>stdout = ''--- Unused C++ Source Files ---'' @ [newline]
        @ ''src/old.cpp'' @ [newline]
        @ [newline] @ ''--- Unused Test Files ---'' @ [newline]
        @ ''tests/t1.cpp'' @ [newline]
        @ [newline] @ ''--- Unused Headers ---'' @ [newline]
        @ ''include/core/legacy.h'' @ [newline]
        @ [newline] @ ''--- Unused Web Assets ---'' @ [newline]
        @ ''ui/static/lib.js'' @ [newline] @ ''ui/static/site.css'' @ [newline],
      unused_src = [''src/old.cpp''],
      unused_tests = [''tests/t1.cpp''],
      unused_headers = [''include/core/legacy.h''],
      unused_assets = [''ui/static/lib.js'', ''ui/static/site.css'']\<rparr>"

text \<open>A project whose only include of \<open>a.h\<close> sits in a directory named \<open>prebuilt\<close>.\<close>

definition prebuilt_project :: node where
  "prebuilt_project = Dir
     [(''include'', Dir [(''a.h'', File [])]),
      (''prebuilt'', Dir [(''x.h'', File (plain ''#include <a.h>''))])]"

text \<open>A project with no sources at all and a build file that does not decode.\<close>

definition garbled_build_project :: node where
  "garbled_build_project = Dir
     [(''src'', Dir [(''CMakeLists.txt'', File [Chr CHR ''a'', Undecodable, Chr CHR ''b''])])]"



text \<open>The output of a run that finds nothing: the four section headers.\<close>

definition four_headers :: string where
  "four_headers =
     ''--- Unused C++ Source Files ---'' @ [newline]
     @ [newline] @ ''--- Unused Test Files ---'' @ [newline]
     @ [newline] @ ''--- Unused Headers ---'' @ [newline]
     @ [newline] @ ''--- Unused Web Assets ---'' @ [newline]"

section \<open>Substring search\<close>

lemma startswith_iff: "startswith s p \<longleftrightarrow> (\<exists>v. s = p @ v)"
proof
  assume "startswith s p"
  then have "s = p @ drop (length p) s"
    unfolding startswith_def by (metis append_take_drop_id)
  then show "\<exists>v. s = p @ v" ..
next
  assume "\<exists>v. s = p @ v"
  then show "startswith s p"
    unfolding startswith_def by auto
qed

lemma startswith_append [simp]: "startswith (p @ v) p"
  by (simp add: startswith_def)

lemma str_in_iff: "str_in needle hay \<longleftrightarrow> (\<exists>u v. hay = u @ needle @ v)"
proof (induction hay)
  case Nil
  show ?case by auto
next
  case (Cons c cs)
  show ?case
  proof
    assume "str_in needle (c # cs)"
    then consider "startswith (c # cs) needle" | "str_in needle cs" by auto
    then show "\<exists>u v. c # cs = u @ needle @ v"
    proof cases
      case 1
      then obtain v where "c # cs = needle @ v" by (auto simp: startswith_iff)
      then have "c # cs = [] @ needle @ v" by simp
      then show ?thesis by blast
    next
      case 2
      then obtain u v where "cs = u @ needle @ v" using Cons.IH by auto
      then have "c # cs = (c # u) @ needle @ v" by simp
      then show ?thesis by blast
    qed
  next
    assume "\<exists>u v. c # cs = u @ needle @ v"
    then obtain u v where uv: "c # cs = u @ needle @ v" by auto
    show "str_in needle (c # cs)"
    proof (cases u)
      case Nil
      with uv have "startswith (c # cs) needle" by (auto simp: startswith_iff)
      then show ?thesis by simp
    next
      case (Cons d u')
      with uv have "cs = u' @ needle @ v" by simp
      then have "str_in needle cs" using Cons.IH by auto
      then show ?thesis by simp
    qed
  qed
qed

lemma endswith_iff: "endswith s p \<longleftrightarrow> (\<exists>stem. s = stem @ p)"
proof
  assume "endswith s p"
  then have "s = take (length s - length p) s @ p"
    unfolding endswith_def by (metis append_take_drop_id)
  then show "\<exists>stem. s = stem @ p" ..
next
  assume "\<exists>stem. s = stem @ p"
  then show "endswith s p"
    unfolding endswith_def by auto
qed

section \<open>Paths and their resolution\<close>

lemma split_slash_not_Nil [simp]: "split_slash s \<noteq> []"
  by (induction s) (auto split: list.splits)

lemma split_slash_append_slash:
  "split_slash (a @ CHR ''/'' # b) = split_slash a @ split_slash b"
proof (induction a)
  case Nil
  show ?case by simp
next
  case (Cons c a)
  then show ?case
    by (cases "split_slash a") auto
qed

lemma split_slash_no_slash: "CHR ''/'' \<notin> set n \<Longrightarrow> split_slash n = [n]"
  by (induction n) auto

lemma components_Nil [simp]: "components [] = []"
  by (simp add: components_def)

lemma components_valid_name: "valid_name n \<Longrightarrow> components n = [n]"
  by (simp add: components_def valid_name_def split_slash_no_slash)

lemma components_append_slash:
  "valid_name n \<Longrightarrow> components (a @ CHR ''/'' # n) = components a @ [n]"
  by (simp add: components_def valid_name_def split_slash_append_slash split_slash_no_slash)

lemma components_trailing_slash: "components (a @ ''/'') = components a"
  using split_slash_append_slash [of a "[]"] by (simp add: components_def)

lemma endswith_slash: "endswith a ''/'' \<Longrightarrow> \<exists>t. a = t @ ''/''"
proof -
  assume "endswith a ''/''"
  then have "1 \<le> length a" and "drop (length a - 1) a = ''/''"
    by (simp_all add: endswith_def)
  then have "a = take (length a - 1) a @ ''/''"
    by (metis append_take_drop_id)
  then show ?thesis ..
qed

lemma components_join:
  assumes "valid_name n"
  shows "components (os_path_join a n) = components a @ [n]"
proof -
  from assms have ns: "\<not> startswith n ''/''"
    by (cases n) (auto simp: valid_name_def startswith_def)
  show ?thesis
  proof (cases "a = []")
    case True
    with ns assms show ?thesis
      by (simp add: os_path_join_def components_valid_name)
  next
    case False
    show ?thesis
    proof (cases "endswith a ''/''")
      case True
      then obtain t where t: "a = t @ ''/''" using endswith_slash by blast
      have "os_path_join a n = t @ CHR ''/'' # n"
        using ns True t by (simp add: os_path_join_def)
      moreover have "components a = components t"
        using t components_trailing_slash by simp
      ultimately show ?thesis
        using assms by (simp add: components_append_slash)
    next
      case no_slash: False
      then have "os_path_join a n = a @ CHR ''/'' # n"
        using ns \<open>a \<noteq> []\<close> by (simp add: os_path_join_def)
      then show ?thesis
        using assms by (simp add: components_append_slash)
    qed
  qed
qed

lemma os_path_join_not_Nil: "n \<noteq> [] \<Longrightarrow> os_path_join a n \<noteq> []"
  by (auto simp: os_path_join_def)

lemma lookup_append:
  "lookup x (cs @ ds) = (case lookup x cs of Inl e \<Rightarrow> Inl e | Inr y \<Rightarrow> lookup y ds)"
  "lookup_in ents c (cs @ ds) = (case lookup_in ents c cs of Inl e \<Rightarrow> Inl e | Inr y \<Rightarrow> lookup y ds)"
  by (induction x cs and ents c cs rule: lookup_lookup_in.induct) auto

lemma lookup_in_member:
  "wf_entries ents \<Longrightarrow> (n, x) \<in> set ents \<Longrightarrow> lookup_in ents n [] = Inr x"
  by (induction ents) force+

lemma wf_entries_member:
  "wf_entries ents \<Longrightarrow> (n, x) \<in> set ents \<Longrightarrow> valid_name n \<and> wf_node x"
  by (induction ents) auto

lemma lookup_wf:
  "wf_node x \<Longrightarrow> lookup x cs = Inr y \<Longrightarrow> wf_node y"
  "wf_entries ents \<Longrightarrow> lookup_in ents c cs = Inr y \<Longrightarrow> wf_node y"
  by (induction x cs and ents c cs rule: lookup_lookup_in.induct) (auto split: if_splits)
lemma regular_entries_member:
  "regular_entries ents \<Longrightarrow> (n, x) \<in> set ents \<Longrightarrow> regular x"
  by (induction ents) auto

lemma lookup_regular:
  "regular x \<Longrightarrow> lookup x cs = Inr y \<Longrightarrow> regular y"
  "regular_entries ents \<Longrightarrow> lookup_in ents c cs = Inr y \<Longrightarrow> regular y"
  by (induction x cs and ents c cs rule: lookup_lookup_in.induct) (auto split: if_splits)

lemma filenames_member:
  "regular_entries ents \<Longrightarrow> f \<in> set (filenames ents) \<Longrightarrow> \<exists>ps. (f, File ps) \<in> set ents"
  by (induction ents rule: filenames.induct) auto

lemma os_path_join_no_final_slash:
  assumes "valid_name n"
  shows "\<not> endswith (os_path_join a n) ''/''"
proof
  assume "endswith (os_path_join a n) ''/''"
  then obtain t where t: "os_path_join a n = t @ ''/''"
    using endswith_slash by blast
  from assms have "n \<noteq> []" by (simp add: valid_name_def)
  moreover have "\<exists>b. os_path_join a n = b @ n"
    by (auto simp: os_path_join_def)
  ultimately have "last (os_path_join a n) = last n"
    by auto
  with t have "last n = CHR ''/''" by simp
  with \<open>n \<noteq> []\<close> have "CHR ''/'' \<in> set n"
    using last_in_set by metis
  with assms show False by (simp add: valid_name_def)
qed

lemma resolve_lookup:
  assumes "resolve fs path = Inr x"
  shows "lookup fs (components path) = Inr x"
proof (cases "lookup fs (components path)")
  case (Inl e)
  with assms show ?thesis
    by (simp add: resolve_def split: if_splits)
next
  case (Inr y)
  with assms have "y = x"
    by (cases y) (auto simp: resolve_def split: if_splits)
  with Inr show ?thesis by simp
qed

lemma open_file_child:
  assumes "lookup fs (components topdir) = Inr (Dir ents)" and "wf_entries ents"
    and "(f, File ps) \<in> set ents"
  shows "open_file fs (os_path_join topdir f) = Inr ps"
proof -
  from assms(2,3) have v: "valid_name f" using wf_entries_member by blast
  then have "f \<noteq> []" by (simp add: valid_name_def)
  then have ne: "os_path_join topdir f \<noteq> []" by (rule os_path_join_not_Nil)
  have "lookup fs (components (os_path_join topdir f)) = lookup (Dir ents) [f]"
    using v assms(1) by (simp add: components_join lookup_append)
  also have "\<dots> = Inr (File ps)"
    using assms(2,3) by (simp add: lookup_in_member)
  finally show ?thesis
    using ne os_path_join_no_final_slash [OF v, of topdir]
    by (simp add: open_file_def resolve_def)
qed

lemma walk_files_open:
  "lookup fs (components topdir) = Inr x \<Longrightarrow> wf_node x \<Longrightarrow> regular x
     \<Longrightarrow> (root, dirs, files) \<in> set (walk_node topdir x) \<Longrightarrow> f \<in> set files
     \<Longrightarrow> \<exists>ps. open_file fs (os_path_join root f) = Inr ps"
  "lookup fs (components topdir) = Inr (Dir ents0) \<Longrightarrow> wf_entries ents0
     \<Longrightarrow> regular_entries ents0 \<Longrightarrow> set ents \<subseteq> set ents0
     \<Longrightarrow> (root, dirs, files) \<in> set (walk_children topdir ents) \<Longrightarrow> f \<in> set files
     \<Longrightarrow> \<exists>ps. open_file fs (os_path_join root f) = Inr ps"
proof (induction topdir x and topdir ents arbitrary: and ents0
    rule: walk_node_walk_children.induct)
  case (1 topdir ps)
  then show ?case by simp
next
  case (2 topdir)
  then show ?case by simp
next
  case (3 topdir)
  then show ?case by simp
next
  case (4 topdir ents)
  from "4.prems"(4) consider
    "root = topdir" "files = filenames ents"
    | "(root, dirs, files) \<in> set (walk_children topdir ents)"
    by auto
  then show ?case
  proof cases
    case 1
    with "4.prems"(3,5) obtain ps where "(f, File ps) \<in> set ents"
      using filenames_member by auto
    with "4.prems"(1,2) 1 show ?thesis
      using open_file_child [of fs topdir ents f ps] by auto
  next
    case 2
    with "4.IH" [of ents] "4.prems" show ?thesis by simp
  qed
next
  case (5 topdir)
  then show ?case by simp
next
  case (6 topdir n x rest)
  from "6.prems"(4) have mem: "(n, x) \<in> set ents0" and sub: "set rest \<subseteq> set ents0"
    by auto
  from mem "6.prems"(2) have v: "valid_name n" and wfx: "wf_node x"
    using wf_entries_member by blast+
  from mem "6.prems"(3) have regx: "regular x"
    using regular_entries_member by blast
  have lk: "lookup fs (components (os_path_join topdir n)) = Inr x"
    using v "6.prems"(1,2) mem by (simp add: components_join lookup_append lookup_in_member)
  from "6.prems"(5) consider
    "(root, dirs, files) \<in> set (walk_node (os_path_join topdir n) x)"
    | "(root, dirs, files) \<in> set (walk_children topdir rest)"
    by auto
  then show ?case
  proof cases
    case 1
    with "6.IH"(1) lk wfx regx "6.prems"(6) show ?thesis by blast
  next
    case 2
    with "6.IH"(2) "6.prems"(1,2,3,6) sub show ?thesis by blast
  qed
qed

lemma os_walk_files_open:
  assumes "wf_node fs" and "regular fs"
    and "(root, dirs, files) \<in> set (os_walk fs topdir)" and "f \<in> set files"
  shows "\<exists>ps. open_file fs (os_path_join root f) = Inr ps"
proof -
  from assms(3) obtain x where x: "resolve fs topdir = Inr x"
    and w: "(root, dirs, files) \<in> set (walk_node topdir x)"
    by (cases "resolve fs topdir") (auto simp: os_walk_def)
  from x have lk: "lookup fs (components topdir) = Inr x"
    by (rule resolve_lookup)
  with assms(1,2) have "wf_node x" and "regular x"
    using lookup_wf(1) lookup_regular(1) by blast+
  with lk w assms(4) show ?thesis using walk_files_open(1) by blast
qed

section \<open>The loops\<close>

lemma concat_texts_Nil [simp]: "concat_texts fs [] = []"
  by (simp add: concat_texts_def)

lemma concat_texts_append [simp]:
  "concat_texts fs (xs @ ys) = concat_texts fs xs @ concat_texts fs ys"
  by (simp add: concat_texts_def)

lemma can_open_Nil [simp]: "can_open fs []"
  by (simp add: can_open_def)

lemma can_open_append [simp]:
  "can_open fs (xs @ ys) \<longleftrightarrow> can_open fs xs \<and> can_open fs ys"
  by (simp add: can_open_def)

lemma can_open_member:
  "can_open fs sel \<longleftrightarrow>
     (\<forall>(root, f) \<in> set sel. \<exists>ps. open_file fs (os_path_join root f) = Inr ps)"
proof -
  have "(case r of Inl e \<Rightarrow> False | Inr ps \<Rightarrow> True) \<longleftrightarrow> (\<exists>ps. r = Inr ps)"
    for r :: "os_error + piece list"
    by (cases r) simp_all
  then show ?thesis
    by (simp add: can_open_def list_all_iff split_def)
qed

lemma report_unused_eq:
  "report_unused used files (out, unused) =
     (out @ concat (map (\<lambda>f. f @ [newline]) (filter (\<lambda>f. \<not> used f) files)),
      unused @ filter (\<lambda>f. \<not> used f) files)"
  by (induction files arbitrary: out unused) (simp_all add: print_def)



lemma selected_files:
  "map (Pair root) (filter (\<lambda>file. endswith_any file suffixes) files)
     = concat (map (\<lambda>file. if endswith_any file suffixes then [(root, file)] else []) files)"
  by (induction files) auto

lemma read_matching_eq:
  "can_open fs (map (Pair root) (filter (\<lambda>file. endswith_any file suffixes) files)) \<Longrightarrow>
   read_matching fs root suffixes files content =
     Inr (content @ concat_texts fs
            (map (Pair root) (filter (\<lambda>file. endswith_any file suffixes) files)))"
proof (induction files arbitrary: content)
  case Nil
  then show ?case by simp
next
  case (Cons f files)
  show ?case
  proof (cases "endswith_any f suffixes")
    case True
    with Cons.prems obtain ps where ps: "open_file fs (os_path_join root f) = Inr ps"
      and rest: "can_open fs (map (Pair root) (filter (\<lambda>file. endswith_any file suffixes) files))"
      by (auto simp: can_open_def split: sum.splits)
    from ps have "read_ignore fs (os_path_join root f) = Inr (decode_ignore ps)"
      and "lossy_text fs (os_path_join root f) = decode_ignore ps"
      by (simp_all add: read_ignore_def lossy_text_def)
    with Cons.IH [OF rest] True show ?thesis
      by (simp add: concat_texts_def)
  next
    case False
    with Cons show ?thesis by simp
  qed
qed

lemma load_all_content_eq:
  "can_open fs
     [(root, file). (root, dirs, files) \<leftarrow> w,
        \<not> (str_in ''build'' root \<or> str_in ''node_modules'' root),
        file \<leftarrow> files, endswith_any file [''.cpp'', ''.c'', ''.h'', ''.hpp'']] \<Longrightarrow>
   load_all_content fs w all_content =
     Inr (all_content @ concat_texts fs
       [(root, file). (root, dirs, files) \<leftarrow> w,
          \<not> (str_in ''build'' root \<or> str_in ''node_modules'' root),
          file \<leftarrow> files, endswith_any file [''.cpp'', ''.c'', ''.h'', ''.hpp'']])"
proof (induction w arbitrary: all_content)
  case Nil
  then show ?case by simp
next
  case (Cons e w)
  obtain root dirs files where e: "e = (root, dirs, files)" by (cases e) auto
  show ?case
  proof (cases "str_in ''build'' root \<or> str_in ''node_modules'' root")
    case True
    with Cons e show ?thesis by auto
  next
    case False
    with Cons.prems e have
      here: "can_open fs (map (Pair root)
               (filter (\<lambda>file. endswith_any file [''.cpp'', ''.c'', ''.h'', ''.hpp'']) files))"
      and rest: "can_open fs
         [(root, file). (root, dirs, files) \<leftarrow> w,
            \<not> (str_in ''build'' root \<or> str_in ''node_modules'' root),
            file \<leftarrow> files, endswith_any file [''.cpp'', ''.c'', ''.h'', ''.hpp'']]"
      by (simp_all add: selected_files)
    from read_matching_eq [OF here] Cons.IH [OF rest] e False show ?thesis
      by (simp add: selected_files)
  qed
qed

lemma load_html_content_eq:
  "can_open fs
     [(root, file). (root, dirs, files) \<leftarrow> w,
        file \<leftarrow> files, endswith_any file [''.html'']] \<Longrightarrow>
   load_html_content fs w html_content =
     Inr (html_content @ concat_texts fs
       [(root, file). (root, dirs, files) \<leftarrow> w,
          file \<leftarrow> files, endswith_any file [''.html'']])"
proof (induction w arbitrary: html_content)
  case Nil
  then show ?case by simp
next
  case (Cons e w)
  obtain root dirs files where e: "e = (root, dirs, files)" by (cases e) auto
  with Cons.prems have
    here: "can_open fs (map (Pair root)
             (filter (\<lambda>file. endswith_any file [''.html'']) files))"
    and rest: "can_open fs
       [(root, file). (root, dirs, files) \<leftarrow> w,
          file \<leftarrow> files, endswith_any file [''.html'']]"
    by (simp_all add: selected_files)
  from read_matching_eq [OF here] Cons.IH [OF rest] e show ?case
    by (simp add: selected_files)
qed

lemma all_content_eq:
  assumes "can_open fs (haystack_files fs)"
  shows "load_all_content fs (os_walk fs ''.'') [] = Inr (concat_texts fs (haystack_files fs))"
  using load_all_content_eq [of fs "os_walk fs ''.''" "[]"] assms
  by (simp add: haystack_files_def)

lemma html_content_eq:
  assumes "can_open fs (markup_files fs)"
  shows "load_html_content fs (os_walk fs ''ui'') [] = Inr (concat_texts fs (markup_files fs))"
  using load_html_content_eq [of fs "os_walk fs ''ui''" "[]"] assms
  by (simp add: markup_files_def)

lemma regular_tree_can_open:
  assumes "wf_node fs" and "regular fs"
  shows "can_open fs (haystack_files fs)" and "can_open fs (markup_files fs)"
  using os_walk_files_open [OF assms]
  by (auto simp: can_open_member haystack_files_def markup_files_def)


lemma read_matching_Inr_can_open:
  "read_matching fs root suffixes files content = Inr c \<Longrightarrow>
     can_open fs (map (Pair root) (filter (\<lambda>file. endswith_any file suffixes) files))"
proof (induction files arbitrary: content)
  case Nil
  then show ?case by simp
next
  case (Cons f files)
  show ?case
  proof (cases "endswith_any f suffixes")
    case True
    with Cons.prems obtain t where t: "read_ignore fs (os_path_join root f) = Inr t"
      and rest: "read_matching fs root suffixes files (content @ t @ [newline]) = Inr c"
      by (cases "read_ignore fs (os_path_join root f)") auto
    from t obtain ps where "open_file fs (os_path_join root f) = Inr ps"
      by (cases "open_file fs (os_path_join root f)") (auto simp: read_ignore_def)
    with Cons.IH [OF rest] True show ?thesis
      by (simp add: can_open_def)
  next
    case False
    with Cons show ?thesis by simp
  qed
qed

lemma load_all_content_Inr_can_open:
  "load_all_content fs w all_content = Inr c \<Longrightarrow>
   can_open fs
     [(root, file). (root, dirs, files) \<leftarrow> w,
        \<not> (str_in ''build'' root \<or> str_in ''node_modules'' root),
        file \<leftarrow> files, endswith_any file [''.cpp'', ''.c'', ''.h'', ''.hpp'']]"
proof (induction w arbitrary: all_content)
  case Nil
  then show ?case by simp
next
  case (Cons e w)
  obtain root dirs files where e: "e = (root, dirs, files)" by (cases e) auto
  show ?case
  proof (cases "str_in ''build'' root \<or> str_in ''node_modules'' root")
    case True
    with Cons.prems e have "load_all_content fs w all_content = Inr c" by auto
    from Cons.IH [OF this] True e show ?thesis by auto
  next
    case False
    with Cons.prems e obtain content where
      rm: "read_matching fs root [''.cpp'', ''.c'', ''.h'', ''.hpp''] files all_content = Inr content"
      and rest: "load_all_content fs w content = Inr c"
      by (cases "read_matching fs root [''.cpp'', ''.c'', ''.h'', ''.hpp''] files all_content") auto
    from read_matching_Inr_can_open [OF rm] Cons.IH [OF rest] e False show ?thesis
      by (simp add: selected_files)
  qed
qed

lemma load_html_content_Inr_can_open:
  "load_html_content fs w html_content = Inr c \<Longrightarrow>
   can_open fs
     [(root, file). (root, dirs, files) \<leftarrow> w,
        file \<leftarrow> files, endswith_any file [''.html'']]"
proof (induction w arbitrary: html_content)
  case Nil
  then show ?case by simp
next
  case (Cons e w)
  obtain root dirs files where e: "e = (root, dirs, files)" by (cases e) auto
  with Cons.prems obtain content where
    rm: "read_matching fs root [''.html''] files html_content = Inr content"
    and rest: "load_html_content fs w content = Inr c"
    by (cases "read_matching fs root [''.html''] files html_content") auto
  from read_matching_Inr_can_open [OF rm] Cons.IH [OF rest] e show ?case
    by (simp add: selected_files)
qed

lemma main_Inr_reads:
  assumes "main fs = Inr r"
  shows "(\<exists>src_cmake. read_file fs ''src/CMakeLists.txt'' = Inr src_cmake)
       \<and> (\<exists>tests_cmake. read_file fs ''tests/CMakeLists.txt'' = Inr tests_cmake)
       \<and> can_open fs (haystack_files fs) \<and> can_open fs (markup_files fs)"
proof -
  from assms obtain src_cmake tests_cmake all_content html_content where
    "read_file fs ''src/CMakeLists.txt'' = Inr src_cmake"
    "read_file fs ''tests/CMakeLists.txt'' = Inr tests_cmake"
    "load_all_content fs (os_walk fs ''.'') [] = Inr all_content"
    "load_html_content fs (os_walk fs ''ui'') [] = Inr html_content"
    by (auto simp: main_def Let_def split: sum.splits prod.splits)
  then show ?thesis
    using load_all_content_Inr_can_open load_html_content_Inr_can_open
    by (auto simp: haystack_files_def markup_files_def)
qed

lemma main_eq:
  assumes "read_file fs ''src/CMakeLists.txt'' = Inr src_cmake"
    and "read_file fs ''tests/CMakeLists.txt'' = Inr tests_cmake"
    and "load_all_content fs (os_walk fs ''.'') [] = Inr all_content"
    and "load_html_content fs (os_walk fs ''ui'') [] = Inr html_content"
  shows "main fs = Inr
    \<lparr>stdout = ''--- Unused C++ Source Files ---'' @ [newline]
        @ lines (filter (\<lambda>f. \<not> check_cmake_usage f src_cmake) (get_files fs ''src'' [''.cpp'', ''.c'']))
        @ [newline] @ ''--- Unused Test Files ---'' @ [newline]
        @ lines (filter (\<lambda>f. \<not> check_cmake_usage f tests_cmake) (get_files fs ''tests'' [''.cpp'', ''.c'']))
        @ [newline] @ ''--- Unused Headers ---'' @ [newline]
        @ lines (filter (\<lambda>h. \<not> check_header_usage h all_content) (get_files fs ''include'' [''.h'', ''.hpp'']))
        @ [newline] @ ''--- Unused Web Assets ---'' @ [newline]
        @ lines (filter (\<lambda>a. \<not> str_in (basename a) html_content) (get_files fs ''ui/static'' [''.js'', ''.css''])),
     unused_src = filter (\<lambda>f. \<not> check_cmake_usage f src_cmake) (get_files fs ''src'' [''.cpp'', ''.c'']),
     unused_tests = filter (\<lambda>f. \<not> check_cmake_usage f tests_cmake) (get_files fs ''tests'' [''.cpp'', ''.c'']),
     unused_headers = filter (\<lambda>h. \<not> check_header_usage h all_content) (get_files fs ''include'' [''.h'', ''.hpp'']),
     unused_assets = filter (\<lambda>a. \<not> str_in (basename a) html_content) (get_files fs ''ui/static'' [''.js'', ''.css''])\<rparr>"
  using assms
  by (simp add: main_def Let_def report_unused_eq print_def lines_def)

section \<open>Roots without matching files\<close>




section \<open>Build-file membership\<close>

text \<open>
  C1. A candidate path made of the prefix \<open>src/\<close> (respectively \<open>tests/\<close>) and a
  fragment is judged used exactly when the fragment, the path without the prefix and its
  separator, occurs somewhere in the build file's text.
\<close>

theorem check_cmake_usage_substring:
  "check_cmake_usage (''src/'' @ frag) cmake_content
     = (\<exists>u v. cmake_content = u @ frag @ v)
   \<and> check_cmake_usage (''tests/'' @ frag) cmake_content
     = (\<exists>u v. cmake_content = u @ frag @ v)"
proof -
  have src: "startswith (''src/'' @ frag) ''src/''"
    by (rule startswith_append)
  have tests: "startswith (''tests/'' @ frag) ''tests/''"
    by (rule startswith_append)
  have not_src: "\<not> startswith (''tests/'' @ frag) ''src/''"
    by (simp add: startswith_def)
  show ?thesis
    using src tests not_src by (simp add: check_cmake_usage_def str_in_iff)
qed

section \<open>Header inclusion\<close>

text \<open>
  C2. A header path made of the prefix \<open>include/\<close> and a fragment is judged used
  exactly when the aggregate text contains the fragment between double quotes or the
  fragment between angle brackets. For \<open>include/a/b.h\<close> the two forms searched are
  the quoted \<open>a/b.h\<close> and \<open><a/b.h>\<close>.
\<close>

theorem check_header_usage_substring:
  "check_header_usage (''include/'' @ frag) all_source_content
     = ((\<exists>u v. all_source_content = u @ [dquote] @ frag @ [dquote] @ v)
        \<or> (\<exists>u v. all_source_content = u @ ''<'' @ frag @ ''>'' @ v))
   \<and> check_header_usage ''include/a/b.h'' all_source_content
     = ((\<exists>u v. all_source_content = u @ [dquote] @ ''a/b.h'' @ [dquote] @ v)
        \<or> (\<exists>u v. all_source_content = u @ ''<a/b.h>'' @ v))"
proof -
  have general: "check_header_usage (''include/'' @ f) all_source_content
     = ((\<exists>u v. all_source_content = u @ [dquote] @ f @ [dquote] @ v)
        \<or> (\<exists>u v. all_source_content = u @ ''<'' @ f @ ''>'' @ v))" for f
  proof -
    have "startswith (''include/'' @ f) ''include/''"
      by (rule startswith_append)
    then show ?thesis
      by (simp add: check_header_usage_def str_in_iff)
  qed
  have "check_header_usage (''include/'' @ ''a/b.h'') all_source_content
     = ((\<exists>u v. all_source_content = u @ [dquote] @ ''a/b.h'' @ [dquote] @ v)
        \<or> (\<exists>u v. all_source_content = u @ ''<'' @ ''a/b.h'' @ ''>'' @ v))"
    by (rule general)
  then have "check_header_usage ''include/a/b.h'' all_source_content
     = ((\<exists>u v. all_source_content = u @ [dquote] @ ''a/b.h'' @ [dquote] @ v)
        \<or> (\<exists>u v. all_source_content = u @ ''<a/b.h>'' @ v))"
    by simp
  with general [of frag] show ?thesis by blast
qed

section \<open>Web assets\<close>

text \<open>
  C3. Whenever the run gets as far as the assets, that is, both build files are read
  and every file the two content loaders read can be opened, \<open>main\<close> completes, the
  markup text is the concatenation of the texts of the files walked from \<open>ui\<close> whose
  names end in \<open>.html\<close>, and of no other file, and the assets reported unused are
  exactly the enumerated assets whose base name occurs nowhere in that text. What other
  scripts hold plays no part in the test.
\<close>

theorem asset_used_iff_in_markup:
  assumes "read_file fs ''src/CMakeLists.txt'' = Inr src_cmake"
    and "read_file fs ''tests/CMakeLists.txt'' = Inr tests_cmake"
    and "can_open fs (haystack_files fs)"
    and "can_open fs (markup_files fs)"
  shows "\<exists>r. main fs = Inr r
   \<and> load_html_content fs (os_walk fs ''ui'') [] = Inr (concat_texts fs (markup_files fs))
   \<and> (\<forall>root file. (root, file) \<in> set (markup_files fs) \<longleftrightarrow>
         (\<exists>dirs files. (root, dirs, files) \<in> set (os_walk fs ''ui'') \<and> file \<in> set files
            \<and> (\<exists>stem. file = stem @ ''.html'')))
   \<and> unused_assets r =
         filter (\<lambda>asset. \<not> (\<exists>u v. concat_texts fs (markup_files fs) = u @ basename asset @ v))
           (get_files fs ''ui/static'' [''.js'', ''.css''])"
proof -
  note html = html_content_eq [OF assms(4)]
  have members: "(root, f) \<in> set (markup_files fs) \<longleftrightarrow>
         (\<exists>dirs files. (root, dirs, files) \<in> set (os_walk fs ''ui'') \<and> f \<in> set files
            \<and> (\<exists>stem. f = stem @ ''.html''))" for root f
    by (auto simp: markup_files_def endswith_any_def endswith_iff)
  from main_eq [OF assms(1,2) all_content_eq [OF assms(3)] html]
  obtain r where run: "main fs = Inr r"
    and assets: "unused_assets r =
         filter (\<lambda>asset. \<not> str_in (basename asset) (concat_texts fs (markup_files fs)))
           (get_files fs ''ui/static'' [''.js'', ''.css''])"
    by simp
  from assets have "unused_assets r =
         filter (\<lambda>asset. \<not> (\<exists>u v. concat_texts fs (markup_files fs) = u @ basename asset @ v))
           (get_files fs ''ui/static'' [''.js'', ''.css''])"
    by (simp only: str_in_iff)
  with run html members show ?thesis by blast
qed

theorem asset_used_iff_in_markup_witness:
  "read_file sample_project ''src/CMakeLists.txt'' = Inr ''add_library(core main.cpp net/tcp.cpp)''
   \<and> read_file sample_project ''tests/CMakeLists.txt'' = Inr []
   \<and> can_open sample_project (haystack_files sample_project)
   \<and> can_open sample_project (markup_files sample_project)
   \<and> markup_files sample_project = [(''ui'', ''index.html'')]
   \<and> concat_texts sample_project (markup_files sample_project)
       = ''<script src=static/app.js></script>'' @ [newline]
   \<and> get_files sample_project ''ui/static'' [''.js'', ''.css'']
       = [''ui/static/app.js'', ''ui/static/lib.js'', ''ui/static/site.css'']
   \<and> lossy_text sample_project ''ui/static/app.js'' = ''import lib.js''
   \<and> (\<exists>r. main sample_project = Inr r
        \<and> unused_assets r = [''ui/static/lib.js'', ''ui/static/site.css'']
        \<and> unused_assets r =
            filter (\<lambda>asset. \<not> (\<exists>u v. concat_texts sample_project (markup_files sample_project)
                                         = u @ basename asset @ v))
              (get_files sample_project ''ui/static'' [''.js'', ''.css'']))"
proof -
  have src: "read_file sample_project ''src/CMakeLists.txt''
      = Inr ''add_library(core main.cpp net/tcp.cpp)''"
    by code_simp
  have tests: "read_file sample_project ''tests/CMakeLists.txt'' = Inr []"
    by code_simp
  have hay: "can_open sample_project (haystack_files sample_project)"
    by code_simp
  have markup: "can_open sample_project (markup_files sample_project)"
    by code_simp
  have listed: "markup_files sample_project = [(''ui'', ''index.html'')]"
    by code_simp
  have html: "concat_texts sample_project (markup_files sample_project)
       = ''<script src=static/app.js></script>'' @ [newline]"
    by code_simp
  have assets: "get_files sample_project ''ui/static'' [''.js'', ''.css'']
       = [''ui/static/app.js'', ''ui/static/lib.js'', ''ui/static/site.css'']"
    by code_simp
  have script: "lossy_text sample_project ''ui/static/app.js'' = ''import lib.js''"
    by code_simp
  have run: "main sample_project = Inr sample_report"
    by code_simp
  from asset_used_iff_in_markup [OF src tests hay markup]
  obtain r where r: "main sample_project = Inr r"
    and filtered: "unused_assets r =
            filter (\<lambda>asset. \<not> (\<exists>u v. concat_texts sample_project (markup_files sample_project)
                                         = u @ basename asset @ v))
              (get_files sample_project ''ui/static'' [''.js'', ''.css''])"
    by blast
  have "unused_assets sample_report = [''ui/static/lib.js'', ''ui/static/site.css'']"
    by (simp add: sample_report_def)
  with r run have "unused_assets r = [''ui/static/lib.js'', ''ui/static/site.css'']"
    by simp
  with r filtered src tests hay markup listed html assets script show ?thesis
    by blast
qed

section \<open>Paths outside the known roots\<close>

text \<open>
  C4. A candidate path that starts with neither \<open>src/\<close> nor \<open>tests/\<close> is judged
  unused by the build-file checker whatever the build file holds, and a header path
  that does not start with \<open>include/\<close> is judged used by the header checker whatever
  the aggregate text holds. Both checkers are total on strings: neither has a raising
  branch, so each of these answers is a returned value.
\<close>

theorem unknown_prefix_defaults:
  "(\<not> startswith file_path ''src/'' \<and> \<not> startswith file_path ''tests/''
      \<longrightarrow> check_cmake_usage file_path cmake_content = False)
   \<and> (\<not> startswith header_path ''include/''
      \<longrightarrow> check_header_usage header_path all_source_content = True)"
  by (simp add: check_cmake_usage_def check_header_usage_def)

theorem unknown_prefix_defaults_witness:
  "\<not> startswith ''lib/x.cpp'' ''src/'' \<and> \<not> startswith ''lib/x.cpp'' ''tests/''
   \<and> check_cmake_usage ''lib/x.cpp'' ''lib/x.cpp x.cpp'' = False
   \<and> \<not> startswith ''src/x.h'' ''include/''
   \<and> check_header_usage ''src/x.h'' [] = True"
  using unknown_prefix_defaults [of "''lib/x.cpp''" "''lib/x.cpp x.cpp''" "''src/x.h''" "[]"]
  by (simp add: startswith_def)

section \<open>The content loader\<close>

text \<open>
  C5. \<open>read_file\<close> is to return the empty string for a missing file and a lossy
  decoding for a file with undecodable bytes. The code at a build file that holds
  \<open>a\<close>, an invalid byte sequence and \<open>b\<close>: \<open>read_file\<close> raises
  \<open>UnicodeDecodeError\<close>, where the read with \<open>errors='ignore'\<close> that the content
  loaders use returns \<open>ab\<close> for the same file. The missing build file of \<open>tests\<close>
  is read as the empty string.
\<close>

theorem read_file_undecodable_raises:
  "open_file garbled_build_project ''src/CMakeLists.txt''
     = Inr [Chr CHR ''a'', Undecodable, Chr CHR ''b'']
   \<and> read_file garbled_build_project ''src/CMakeLists.txt'' = Inl UnicodeDecodeError
   \<and> read_ignore garbled_build_project ''src/CMakeLists.txt'' = Inr ''ab''
   \<and> open_file garbled_build_project ''tests/CMakeLists.txt'' = Inl FileNotFoundError
   \<and> read_file garbled_build_project ''tests/CMakeLists.txt'' = Inr []"
  by code_simp

section \<open>An empty build file\<close>

text \<open>
  C6. Against the empty build-file text, which is what a missing build file is read as,
  every candidate under \<open>src/\<close> or \<open>tests/\<close> with something after the prefix is
  judged unused.
\<close>

theorem empty_build_file_all_unused:
  assumes "frag \<noteq> []"
  shows "\<not> check_cmake_usage (''src/'' @ frag) []
       \<and> \<not> check_cmake_usage (''tests/'' @ frag) []"
proof -
  have "\<not> startswith (''tests/'' @ frag) ''src/''"
    by (simp add: startswith_def)
  with assms show ?thesis
    by (simp add: check_cmake_usage_def startswith_append [of "''src/''", simplified]
        startswith_append [of "''tests/''", simplified])
qed

theorem empty_build_file_all_unused_witness:
  "''a.cpp'' \<noteq> [] \<and> \<not> check_cmake_usage ''src/a.cpp'' []
   \<and> \<not> check_cmake_usage ''tests/a.cpp'' []"
  using empty_build_file_all_unused [of "''a.cpp''"] by simp

section \<open>The result lists\<close>

text \<open>
  C7. Whenever both build files are read and every file the two content loaders read
  can be opened, \<open>main\<close> completes, and each of its four result lists is the
  enumerated list of its category with the paths its checker judged referenced taken
  out: the order is that of the enumerator, and a path is in a result list only if its
  checker, run on the content read in this run, found no reference to it. A run
  completes in no other case, since each of these reads is done and none is guarded.
\<close>

theorem result_lists_filtered:
  assumes "read_file fs ''src/CMakeLists.txt'' = Inr src_cmake"
    and "read_file fs ''tests/CMakeLists.txt'' = Inr tests_cmake"
    and "can_open fs (haystack_files fs)"
    and "can_open fs (markup_files fs)"
  shows "\<exists>r. main fs = Inr r
   \<and> load_all_content fs (os_walk fs ''.'') [] = Inr (concat_texts fs (haystack_files fs))
   \<and> load_html_content fs (os_walk fs ''ui'') [] = Inr (concat_texts fs (markup_files fs))
   \<and> unused_src r = filter (\<lambda>f. \<not> check_cmake_usage f src_cmake)
                        (get_files fs ''src'' [''.cpp'', ''.c''])
   \<and> unused_tests r = filter (\<lambda>f. \<not> check_cmake_usage f tests_cmake)
                          (get_files fs ''tests'' [''.cpp'', ''.c''])
   \<and> unused_headers r =
         filter (\<lambda>h. \<not> check_header_usage h (concat_texts fs (haystack_files fs)))
           (get_files fs ''include'' [''.h'', ''.hpp''])
   \<and> unused_assets r =
         filter (\<lambda>asset. \<not> str_in (basename asset) (concat_texts fs (markup_files fs)))
           (get_files fs ''ui/static'' [''.js'', ''.css''])"
proof -
  note all = all_content_eq [OF assms(3)]
  note html = html_content_eq [OF assms(4)]
  from main_eq [OF assms(1,2) all html] all html show ?thesis
    by simp
qed

theorem result_lists_filtered_witness:
  "read_file sample_project ''src/CMakeLists.txt'' = Inr ''add_library(core main.cpp net/tcp.cpp)''
   \<and> read_file sample_project ''tests/CMakeLists.txt'' = Inr []
   \<and> can_open sample_project (haystack_files sample_project)
   \<and> can_open sample_project (markup_files sample_project)
   \<and> main sample_project = Inr sample_report
   \<and> (\<exists>r. main sample_project = Inr r
   \<and> unused_src r = filter (\<lambda>f. \<not> check_cmake_usage f ''add_library(core main.cpp net/tcp.cpp)'')
                        (get_files sample_project ''src'' [''.cpp'', ''.c''])
   \<and> unused_tests r = filter (\<lambda>f. \<not> check_cmake_usage f [])
                          (get_files sample_project ''tests'' [''.cpp'', ''.c''])
   \<and> unused_headers r =
         filter (\<lambda>h. \<not> check_header_usage h
                         (concat_texts sample_project (haystack_files sample_project)))
           (get_files sample_project ''include'' [''.h'', ''.hpp''])
   \<and> unused_assets r =
         filter (\<lambda>asset. \<not> str_in (basename asset)
                             (concat_texts sample_project (markup_files sample_project)))
           (get_files sample_project ''ui/static'' [''.js'', ''.css'']))"
proof -
  have src: "read_file sample_project ''src/CMakeLists.txt''
      = Inr ''add_library(core main.cpp net/tcp.cpp)''"
    by code_simp
  have tests: "read_file sample_project ''tests/CMakeLists.txt'' = Inr []"
    by code_simp
  have hay: "can_open sample_project (haystack_files sample_project)"
    by code_simp
  have markup: "can_open sample_project (markup_files sample_project)"
    by code_simp
  have run: "main sample_project = Inr sample_report"
    by code_simp
  from result_lists_filtered [OF src tests hay markup] src tests hay markup run
  show ?thesis by blast
qed

section \<open>A tree with nothing to report\<close>




section \<open>The haystack of the header check\<close>

text \<open>
  C10, as the code has it. Whenever every file of the haystack can be opened, which is
  so on every tree of directories and readable regular files, the aggregate text is
  built from exactly the files walked from \<open>.\<close> whose names end in \<open>.cpp\<close>,
  \<open>.c\<close>, \<open>.h\<close> or \<open>.hpp\<close> and whose directory path has neither \<open>build\<close>
  nor \<open>node_modules\<close> as a substring. So a directory whose path merely contains one
  of the two, such as one named \<open>rebuild\<close>, is left out as well.
\<close>

theorem haystack_is_filtered_walk:
  assumes "can_open fs (haystack_files fs)"
  shows "load_all_content fs (os_walk fs ''.'') [] = Inr (concat_texts fs (haystack_files fs))
   \<and> (\<forall>root file. (root, file) \<in> set (haystack_files fs) \<longleftrightarrow>
         (\<exists>dirs files. (root, dirs, files) \<in> set (os_walk fs ''.'') \<and> file \<in> set files
            \<and> ((\<exists>stem. file = stem @ ''.cpp'') \<or> (\<exists>stem. file = stem @ ''.c'')
               \<or> (\<exists>stem. file = stem @ ''.h'') \<or> (\<exists>stem. file = stem @ ''.hpp''))
            \<and> \<not> (\<exists>u v. root = u @ ''build'' @ v)
            \<and> \<not> (\<exists>u v. root = u @ ''node_modules'' @ v)))
   \<and> (\<forall>u v file. (u @ ''rebuild'' @ v, file) \<notin> set (haystack_files fs))"
proof -
  have members: "(root, f) \<in> set (haystack_files fs) \<longleftrightarrow>
         (\<exists>dirs files. (root, dirs, files) \<in> set (os_walk fs ''.'') \<and> f \<in> set files
            \<and> ((\<exists>stem. f = stem @ ''.cpp'') \<or> (\<exists>stem. f = stem @ ''.c'')
               \<or> (\<exists>stem. f = stem @ ''.h'') \<or> (\<exists>stem. f = stem @ ''.hpp''))
            \<and> \<not> (\<exists>u v. root = u @ ''build'' @ v)
            \<and> \<not> (\<exists>u v. root = u @ ''node_modules'' @ v))" for root f
  proof -
    have "(root, f) \<in> set (haystack_files fs) \<longleftrightarrow>
         (\<exists>dirs files. (root, dirs, files) \<in> set (os_walk fs ''.'') \<and> f \<in> set files
            \<and> endswith_any f [''.cpp'', ''.c'', ''.h'', ''.hpp'']
            \<and> \<not> str_in ''build'' root \<and> \<not> str_in ''node_modules'' root)"
      unfolding haystack_files_def by force
    moreover have "endswith_any f [''.cpp'', ''.c'', ''.h'', ''.hpp''] \<longleftrightarrow>
        (\<exists>stem. f = stem @ ''.cpp'') \<or> (\<exists>stem. f = stem @ ''.c'')
               \<or> (\<exists>stem. f = stem @ ''.h'') \<or> (\<exists>stem. f = stem @ ''.hpp'')"
      by (simp add: endswith_any_def endswith_iff)
    ultimately show ?thesis
      by (simp only: str_in_iff)
  qed
  have "(u @ ''rebuild'' @ v, f) \<notin> set (haystack_files fs)" for u v f
  proof -
    have "u @ ''rebuild'' @ v = (u @ ''re'') @ ''build'' @ v" by simp
    then have "\<exists>u' v'. u @ ''rebuild'' @ v = u' @ ''build'' @ v'" by blast
    then show ?thesis using members by blast
  qed
  with all_content_eq [OF assms] members show ?thesis by blast
qed

theorem haystack_is_filtered_walk_witness:
  "can_open sample_project (haystack_files sample_project)
   \<and> (''./rebuild'', [], [''gen.h'']) \<in> set (os_walk sample_project ''.'')
   \<and> (''./rebuild'', ''gen.h'') \<notin> set (haystack_files sample_project)
   \<and> haystack_files sample_project
       = [(''./src'', ''main.cpp''), (''./src'', ''old.cpp''), (''./src/net'', ''tcp.cpp''),
          (''./tests'', ''t1.cpp''), (''./include/core'', ''api.h''),
          (''./include/core'', ''legacy.h''), (''./include/net'', ''tcp.hpp'')]
   \<and> load_all_content sample_project (os_walk sample_project ''.'') []
       = Inr (concat_texts sample_project (haystack_files sample_project))"
proof -
  have opens: "can_open sample_project (haystack_files sample_project)"
    by code_simp
  have walked: "(''./rebuild'', [], [''gen.h'']) \<in> set (os_walk sample_project ''.'')"
    by code_simp
  have listed: "haystack_files sample_project
       = [(''./src'', ''main.cpp''), (''./src'', ''old.cpp''), (''./src/net'', ''tcp.cpp''),
          (''./tests'', ''t1.cpp''), (''./include/core'', ''api.h''),
          (''./include/core'', ''legacy.h''), (''./include/net'', ''tcp.hpp'')]"
    by code_simp
  from haystack_is_filtered_walk [OF opens]
  have "load_all_content sample_project (os_walk sample_project ''.'') []
       = Inr (concat_texts sample_project (haystack_files sample_project))"
    and "(''./'' @ ''rebuild'' @ [], ''gen.h'') \<notin> set (haystack_files sample_project)"
    by blast+
  with opens walked listed show ?thesis by simp
qed

text \<open>
  C10 as stated fails in its example: \<open>prebuilt\<close> does not contain \<open>build\<close>, so a
  directory of that name is walked and read like any other, and its include of
  \<open>a.h\<close> makes that header used.
\<close>

theorem prebuilt_counterexample:
  "\<not> str_in ''build'' ''./prebuilt''
   \<and> os_walk prebuilt_project ''.''
       = [(''.'', [''include'', ''prebuilt''], []),
          (''./include'', [], [''a.h'']),
          (''./prebuilt'', [], [''x.h''])]
   \<and> load_all_content prebuilt_project (os_walk prebuilt_project ''.'') []
       = Inr ([newline] @ ''#include <a.h>'' @ [newline])
   \<and> main prebuilt_project
       = Inr \<lparr>stdout = four_headers, unused_src = [], unused_tests = [],
               unused_headers = [], unused_assets = []\<rparr>"
  by code_simp

end
